theory Spec2Isabelle
  imports Main "HOL-Library.Char_ord" "HOL-Library.List_Lexorder" "HOL-Library.Multiset"
begin

section \<open>Data model\<close>

text \<open>
  The link-report cleaner of \<^verbatim>\<open>interlinking_streamlit.py\<close> works on a pandas
  DataFrame. A frame is modelled as the ordered list of its column labels and the list of
  its rows, every row holding one cell per column, in column order. A cell is a missing
  value (NaN), a Python string or a number. The model describes frames with pairwise
  different column labels and rectangular rows (predicate \<open>frame\<close>), which is what
  \<^verbatim>\<open>pd.read_csv\<close> delivers to \<^verbatim>\<open>process_data\<close>.
\<close>

datatype cell = Null | Str string | Num int

record table =
  columns :: "string list"
  rows :: "cell list list"

text \<open>
  The ways in which \<^verbatim>\<open>process_data\<close> ends without a result. \<open>MissingColumn\<close> and
  \<open>EmptyDomainSet\<close> are the \<^verbatim>\<open>return None, None\<close> branches of the source;
  \<open>Raised\<close> is a Python exception that leaves \<^verbatim>\<open>process_data\<close> (the caller
  \<^verbatim>\<open>main\<close> catches it and shows no result), named by its class. \<open>Unmodelled\<close> marks
  an input on which the run depends on parts of \<^verbatim>\<open>urllib\<close> or \<^verbatim>\<open>re\<close> that this
  theory does not describe (bracketed hosts, control characters, regular-expression
  operators other than the dot, numeric URL cells); nothing is stated about such runs.
\<close>

datatype error = MissingColumn string | EmptyDomainSet | Raised string | Unmodelled

definition frame :: "table \<Rightarrow> bool" where
  "frame df = (distinct (columns df) \<and> list_all (\<lambda>r. length r = length (columns df)) (rows df))"

fun is_Str :: "cell \<Rightarrow> bool" where
  "is_Str (Str s) = True"
| "is_Str c = False"

fun is_Num :: "cell \<Rightarrow> bool" where
  "is_Num (Num n) = True"
| "is_Num c = False"

subsection \<open>Column access\<close>

text \<open>\<open>cell_at cols c r\<close> is \<^verbatim>\<open>row[c]\<close>: the cell of row \<open>r\<close> under the label \<open>c\<close>.\<close>

fun cell_at :: "string list \<Rightarrow> string \<Rightarrow> cell list \<Rightarrow> cell" where
  "cell_at (k # ks) c (v # vs) = (if k = c then v else cell_at ks c vs)"
| "cell_at ks c vs = Null"

text \<open>\<^verbatim>\<open>df[c]\<close> as the list of the column's values, in row order.\<close>

definition column_values :: "string \<Rightarrow> table \<Rightarrow> cell list" where
  "column_values c df = map (cell_at (columns df) c) (rows df)"

text \<open>\<^verbatim>\<open>df[mask]\<close> with a mask computed row by row.\<close>

definition filter_rows :: "(cell list \<Rightarrow> bool) \<Rightarrow> table \<Rightarrow> table" where
  "filter_rows p df = \<lparr>columns = columns df, rows = filter p (rows df)\<rparr>"

fun drop_cells :: "string list \<Rightarrow> string list \<Rightarrow> cell list \<Rightarrow> cell list" where
  "drop_cells cs (k # ks) (v # vs) =
     (if k \<in> set cs then drop_cells cs ks vs else v # drop_cells cs ks vs)"
| "drop_cells cs ks vs = []"

text \<open>\<^verbatim>\<open>df.drop(columns=cs)\<close>, for labels \<open>cs\<close> that all exist (the source checks).\<close>

definition drop_columns :: "string list \<Rightarrow> table \<Rightarrow> table" where
  "drop_columns cs df =
     \<lparr>columns = filter (\<lambda>k. k \<notin> set cs) (columns df),
      rows = map (drop_cells cs (columns df)) (rows df)\<rparr>"

text \<open>\<^verbatim>\<open>[col for col in cs if col in df.columns]\<close>\<close>

definition existing_columns :: "string list \<Rightarrow> table \<Rightarrow> string list" where
  "existing_columns cs df = filter (\<lambda>col. col \<in> set (columns df)) cs"

fun set_cell :: "string list \<Rightarrow> string \<Rightarrow> cell \<Rightarrow> cell list \<Rightarrow> cell list" where
  "set_cell (k # ks) c x (v # vs) = (if k = c then x # vs else v # set_cell ks c x vs)"
| "set_cell ks c x vs = vs"

text \<open>
  \<^verbatim>\<open>df[new] = df[src]\<close>: an existing column \<open>new\<close> is overwritten in place, otherwise
  the column is appended on the right.
\<close>

definition assign_column :: "string \<Rightarrow> string \<Rightarrow> table \<Rightarrow> table" where
  "assign_column new src df =
     (if new \<in> set (columns df)
      then \<lparr>columns = columns df,
            rows = map (\<lambda>r. set_cell (columns df) new (cell_at (columns df) src r) r) (rows df)\<rparr>
      else \<lparr>columns = columns df @ [new],
            rows = map (\<lambda>r. r @ [cell_at (columns df) src r]) (rows df)\<rparr>)"

subsection \<open>Counting\<close>

text \<open>
  The distinct elements of a list in the order of their first occurrence: the key order
  of \<^verbatim>\<open>collections.Counter\<close> (a dict keeps insertion order) and of
  \<^verbatim>\<open>value_counts\<close> before it sorts.
\<close>

fun first_seen :: "'a list \<Rightarrow> 'a list" where
  "first_seen [] = []"
| "first_seen (x # xs) = x # filter (\<lambda>y. y \<noteq> x) (first_seen xs)"

text \<open>\<^verbatim>\<open>Counter(xs).items()\<close>\<close>

definition Counter :: "'a list \<Rightarrow> ('a \<times> nat) list" where
  "Counter xs = map (\<lambda>x. (x, count_list xs x)) (first_seen xs)"

text \<open>
  \<^verbatim>\<open>most_common(1)\<close> is \<^verbatim>\<open>heapq.nlargest(1, items, key=count)\<close>, that is Python's
  \<^verbatim>\<open>max\<close>: one pass that replaces the best item only by a strictly larger one, so the
  earliest item of maximal count wins.
\<close>

fun max_first :: "('a \<times> nat) \<Rightarrow> ('a \<times> nat) list \<Rightarrow> 'a \<times> nat" where
  "max_first best [] = best"
| "max_first best (x # xs) = max_first (if snd best < snd x then x else best) xs"

definition most_common1 :: "('a \<times> nat) list \<Rightarrow> ('a \<times> nat) list" where
  "most_common1 items = (case items of [] \<Rightarrow> [] | x # xs \<Rightarrow> [max_first x xs])"

text \<open>
  \<^verbatim>\<open>Series.value_counts()\<close>: missing values are not counted (\<^verbatim>\<open>dropna=True\<close>), the
  result is ordered by descending count. pandas does not fix the order of values of equal
  count; the model keeps them in first-seen order.
\<close>

definition value_counts :: "cell list \<Rightarrow> (cell \<times> nat) list" where
  "value_counts vals = sort_key (\<lambda>p. - int (snd p)) (Counter (filter (\<lambda>v. v \<noteq> Null) vals))"


subsection \<open>Library functions the pipeline calls\<close>

text \<open>
  \<^verbatim>\<open>urlparse(url).netloc\<close>, after \<^verbatim>\<open>urllib.parse.urlsplit\<close> of CPython 3.12: a
  scheme (a letter followed by letters, digits, \<^verbatim>\<open>+\<close>, \<^verbatim>\<open>-\<close>, \<^verbatim>\<open>.\<close> up to the first
  colon) is split off; if the rest starts with \<^verbatim>\<open>//\<close>, the network location runs from
  there to the first of \<^verbatim>\<open>/\<close>, \<^verbatim>\<open>?\<close>, \<^verbatim>\<open>#\<close>, otherwise it is empty. \<open>None\<close>
  stands for the inputs left out here: whitespace, control and non-ASCII characters
  (stripped, removed or normalised differently by different Python versions) and network
  locations with square brackets (validated as IPv6 literals, with \<^verbatim>\<open>ValueError\<close>).
\<close>

definition is_alpha :: "char \<Rightarrow> bool" where
  "is_alpha c = (c \<in> set ''abcdefghijklmnopqrstuvwxyzABCDEFGHIJKLMNOPQRSTUVWXYZ'')"

definition scheme_chars :: "char list" where
  "scheme_chars = ''abcdefghijklmnopqrstuvwxyzABCDEFGHIJKLMNOPQRSTUVWXYZ0123456789+-.''"

definition strip_scheme :: "string \<Rightarrow> string" where
  "strip_scheme url =
     (case url of
        [] \<Rightarrow> []
      | c # cs \<Rightarrow>
          if CHR '':'' \<in> set url \<and> is_alpha c
             \<and> list_all (\<lambda>x. x \<in> set scheme_chars) (takeWhile (\<lambda>x. x \<noteq> CHR '':'') url)
          then tl (dropWhile (\<lambda>x. x \<noteq> CHR '':'') url)
          else url)"

definition splitnetloc :: "string \<Rightarrow> string" where
  "splitnetloc url = takeWhile (\<lambda>c. c \<notin> set ''/?#'') url"

definition plain_ascii :: "char \<Rightarrow> bool" where
  "plain_ascii c = (32 < (of_char c :: nat) \<and> (of_char c :: nat) < 127)"

definition urlparse_netloc :: "string \<Rightarrow> string option" where
  "urlparse_netloc url =
     (if \<not> list_all plain_ascii url then None
      else let rest = strip_scheme url;
               netloc = (if take 2 rest = ''//'' then splitnetloc (drop 2 rest) else [])
           in if CHR ''['' \<in> set netloc \<or> CHR '']'' \<in> set netloc then None else Some netloc)"

text \<open>
  \<^verbatim>\<open>str.contains(pat, na=False)\<close> has \<^verbatim>\<open>regex=True\<close> by default: \<open>pat\<close> is a regular
  expression handed to \<^verbatim>\<open>re.search\<close>. The model covers patterns built from ordinary
  characters and the dot, which matches every character but a newline; host names and
  ports are of this form. A pattern with another operator of \<^verbatim>\<open>re\<close> is not \<open>plain\<close>.
\<close>

definition regex_special :: "char list" where
  "regex_special = CHR 0x5C # ''^$*+?{}[]|()''"

definition plain_pattern :: "string \<Rightarrow> bool" where
  "plain_pattern pat = list_all (\<lambda>c. c \<notin> set regex_special) pat"

fun re_match :: "string \<Rightarrow> string \<Rightarrow> bool" where
  "re_match [] s = True"
| "re_match (p # ps) [] = False"
| "re_match (p # ps) (c # cs) =
     ((if p = CHR ''.'' then c \<noteq> CHR 0x0A else c = p) \<and> re_match ps cs)"

fun re_search :: "string \<Rightarrow> string \<Rightarrow> bool" where
  "re_search pat [] = re_match pat []"
| "re_search pat (c # cs) = (re_match pat (c # cs) \<or> re_search pat cs)"

text \<open>
  The literal test \<^verbatim>\<open>sub in s\<close> of Python (what \<^verbatim>\<open>str.contains\<close> computes with
  \<^verbatim>\<open>regex=False\<close>), to compare \<open>re_search\<close> with.
\<close>

fun contains_literal :: "string \<Rightarrow> string \<Rightarrow> bool" where
  "contains_literal sub [] = (sub = [])"
| "contains_literal sub (c # cs) = (take (length sub) (c # cs) = sub \<or> contains_literal sub cs)"

text \<open>One element of \<^verbatim>\<open>s.str.contains(pat, na=False)\<close>: a cell that is no string gives NaN, filled with \<open>False\<close>.\<close>

fun str_contains :: "string \<Rightarrow> cell \<Rightarrow> bool" where
  "str_contains pat (Str s) = re_search pat s"
| "str_contains pat c = False"

text \<open>\<^verbatim>\<open>str.lower\<close> on the letters that matter for the suffixes below (A to Z).\<close>

definition lower_char :: "char \<Rightarrow> char" where
  "lower_char c =
     (case map_of (zip ''ABCDEFGHIJKLMNOPQRSTUVWXYZ'' ''abcdefghijklmnopqrstuvwxyz'') c of
        Some l \<Rightarrow> l
      | None \<Rightarrow> c)"

definition lower :: "string \<Rightarrow> string" where
  "lower s = map lower_char s"

definition endswith :: "string \<Rightarrow> string \<Rightarrow> bool" where
  "endswith s suffix = (length suffix \<le> length s \<and> drop (length s - length suffix) s = suffix)"

text \<open>
  The \<^verbatim>\<open>.str\<close> accessor raises \<^verbatim>\<open>AttributeError\<close> unless the column holds text. A
  column read without any text value has a numeric dtype and is refused; a column of dtype
  \<^verbatim>\<open>object\<close> is accepted if its present values contain a string or are all missing.
\<close>

definition str_accessor_ok :: "bool \<Rightarrow> cell list \<Rightarrow> bool" where
  "str_accessor_ok object_dtype vals =
     (list_ex is_Str vals \<or> (object_dtype \<and> \<not> list_ex is_Num vals))"

text \<open>\<^verbatim>\<open>read_csv\<close> gives a column the dtype \<^verbatim>\<open>object\<close> when one of its values is text.\<close>

definition object_dtype :: "string \<Rightarrow> table \<Rightarrow> bool" where
  "object_dtype c df = list_ex is_Str (column_values c df)"

text \<open>\<^verbatim>\<open>a != b\<close> on two cells; NaN differs from everything, itself included.\<close>

definition ne_cell :: "cell \<Rightarrow> cell \<Rightarrow> bool" where
  "ne_cell a b = (a = Null \<or> b = Null \<or> a \<noteq> b)"

text \<open>\<^verbatim>\<open>Series.apply(f)\<close>: \<open>f\<close> on every value in row order; the first exception ends the run.\<close>

fun apply_series :: "('a \<Rightarrow> error + 'b) \<Rightarrow> 'a list \<Rightarrow> error + 'b list" where
  "apply_series f [] = Inr []"
| "apply_series f (x # xs) =
     (case f x of
        Inl e \<Rightarrow> Inl e
      | Inr y \<Rightarrow> (case apply_series f xs of Inl e \<Rightarrow> Inl e | Inr ys \<Rightarrow> Inr (y # ys)))"

text \<open>
  \<^verbatim>\<open>df.loc[:, a:b].columns\<close> for labels \<open>a\<close>, \<open>b\<close> that exist: the label slice runs from
  the position of \<open>a\<close> to the position of \<open>b\<close>, both included, and is empty when \<open>a\<close>
  stands to the right of \<open>b\<close>.
\<close>

fun index_of :: "'a \<Rightarrow> 'a list \<Rightarrow> nat" where
  "index_of c [] = 0"
| "index_of c (k # ks) = (if k = c then 0 else Suc (index_of c ks))"

definition loc_slice_columns :: "string \<Rightarrow> string \<Rightarrow> string list \<Rightarrow> string list" where
  "loc_slice_columns a b cols = take (Suc (index_of b cols) - index_of a cols) (drop (index_of a cols) cols)"

text \<open>
  \<^verbatim>\<open>drop_duplicates(subset=ks)\<close> keeps the first row of every key; \<open>seen\<close> are the keys
  met so far.
\<close>

fun keep_first :: "('a \<Rightarrow> 'k) \<Rightarrow> 'k list \<Rightarrow> 'a list \<Rightarrow> 'a list" where
  "keep_first key seen [] = []"
| "keep_first key seen (x # xs) =
     (if key x \<in> set seen then keep_first key seen xs
      else x # keep_first key (key x # seen) xs)"

text \<open>
  \<^verbatim>\<open>sort_values(by=c)\<close> on a column of strings, ascending in Python's string order
  (code point by code point, a proper prefix first). The source leaves \<^verbatim>\<open>kind\<close> at
  pandas' default \<^verbatim>\<open>quicksort\<close>, for which pandas promises a sorted permutation and
  no order among rows of equal key; the model takes the insertion sort of
  \<^const>\<open>sort_key\<close> as one such result.
\<close>

fun sort_string :: "cell \<Rightarrow> string" where
  "sort_string (Str s) = s"
| "sort_string c = []"

definition sort_values :: "string \<Rightarrow> table \<Rightarrow> table" where
  "sort_values by_col df =
     \<lparr>columns = columns df,
      rows = sort_key (\<lambda>r. sort_string (cell_at (columns df) by_col r)) (rows df)\<rparr>"


section \<open>The pipeline\<close>

subsection \<open>Main-domain detection (lines 7 to 27)\<close>

text \<open>
  \<^verbatim>\<open>extract_main_domain\<close> on one cell of the \<^verbatim>\<open>Source\<close> column. On a missing value
  \<^verbatim>\<open>urlparse\<close> is given a float and raises \<^verbatim>\<open>AttributeError\<close>.
\<close>

fun extract_main_domain :: "cell \<Rightarrow> error + string" where
  "extract_main_domain (Str url) =
     (case urlparse_netloc url of Some domain \<Rightarrow> Inr domain | None \<Rightarrow> Inl Unmodelled)"
| "extract_main_domain Null = Inl (Raised ''AttributeError'')"
| "extract_main_domain (Num n) = Inl Unmodelled"

definition detect_main_domain :: "table \<Rightarrow> error + string" where
  "detect_main_domain df =
     (if ''Source'' \<notin> set (columns df) then Inl (MissingColumn ''Source'')
      else case apply_series extract_main_domain (column_values ''Source'' df) of
             Inl e \<Rightarrow> Inl e
           | Inr domains \<Rightarrow>
               (let domain_counts = Counter domains
                in if domain_counts = [] then Inl EmptyDomainSet
                   else case most_common1 domain_counts of
                          [] \<Rightarrow> Inl (Raised ''IndexError'')
                        | item # others \<Rightarrow> Inr (fst item)))"

subsection \<open>Column drops and the content filter (lines 29 to 48)\<close>

definition columns_to_drop_initial :: "string list" where
  "columns_to_drop_initial = [''Size (Bytes)'', ''Alt Text'', ''Status'', ''Type'']"

definition drop_initial :: "table \<Rightarrow> table" where
  "drop_initial df = drop_columns (existing_columns columns_to_drop_initial df) df"

definition drop_range :: "table \<Rightarrow> table" where
  "drop_range df =
     (if ''Follow'' \<in> set (columns df) \<and> ''Link Path'' \<in> set (columns df)
      then drop_columns (loc_slice_columns ''Follow'' ''Link Path'' (columns df)) df
      else df)"

definition link_position_filter :: "table \<Rightarrow> table" where
  "link_position_filter df =
     (if ''Link Position'' \<in> set (columns df)
      then filter_rows (\<lambda>r. cell_at (columns df) ''Link Position'' r = Str ''Content'') df
      else df)"

definition columns_to_drop_final :: "string list" where
  "columns_to_drop_final = [''Link Origin'', ''Link Position'']"

definition drop_final :: "table \<Rightarrow> table" where
  "drop_final df = drop_columns (existing_columns columns_to_drop_final df) df"

definition prepare :: "table \<Rightarrow> table" where
  "prepare df = drop_final (link_position_filter (drop_range (drop_initial df)))"

subsection \<open>Destination filter (lines 50 to 55)\<close>

text \<open>
  \<open>text_dtype\<close> tells whether the \<^verbatim>\<open>Destination\<close> column of the uploaded frame has
  dtype \<^verbatim>\<open>object\<close>; row filters do not change a column's dtype.
\<close>

definition destination_filter :: "string \<Rightarrow> bool \<Rightarrow> table \<Rightarrow> error + table" where
  "destination_filter main_domain text_dtype df =
     (if ''Destination'' \<in> set (columns df)
      then if \<not> str_accessor_ok text_dtype (column_values ''Destination'' df)
           then Inl (Raised ''AttributeError'')
           else if \<not> plain_pattern main_domain then Inl Unmodelled
           else Inr (filter_rows
                       (\<lambda>r. str_contains main_domain (cell_at (columns df) ''Destination'' r)) df)
      else Inl (MissingColumn ''Destination''))"

subsection \<open>Status split (lines 57 to 68)\<close>

text \<open>
  Only \<^verbatim>\<open>df_status_200\<close> is used further; \<^verbatim>\<open>df_other_status\<close> is computed and
  never read.
\<close>

definition status_200 :: "table \<Rightarrow> table" where
  "status_200 df =
     (if ''Status Code'' \<in> set (columns df)
      then drop_columns [''Status Code'']
             (filter_rows (\<lambda>r. cell_at (columns df) ''Status Code'' r = Num 200) df)
      else df)"

subsection \<open>Deduplication and row filters (lines 70 to 102)\<close>

text \<open>\<^verbatim>\<open>drop_duplicates\<close> raises \<^verbatim>\<open>KeyError\<close> for a label of its \<^verbatim>\<open>subset\<close> that is no column.\<close>

definition drop_duplicates :: "string list \<Rightarrow> table \<Rightarrow> error + table" where
  "drop_duplicates key_cols df =
     (if list_all (\<lambda>c. c \<in> set (columns df)) key_cols
      then Inr \<lparr>columns = columns df,
                rows = keep_first (\<lambda>r. map (\<lambda>c. cell_at (columns df) c r) key_cols) [] (rows df)\<rparr>
      else Inl (Raised ''KeyError''))"

definition unwanted_extensions :: "string list" where
  "unwanted_extensions =
     [''.jpg'', ''.jpeg'', ''.png'', ''.gif'', ''.bmp'', ''.svg'',
      ''.mp4'', ''.avi'', ''.mov'', ''.wmv'', ''.flv'',
      ''.mp3'', ''.wav'', ''.ogg'',
      ''.js'', ''.css'', ''.pdf'', ''.doc'', ''.docx'']"

text \<open>
  One element of \<^verbatim>\<open>~s.str.lower().str.endswith(tuple(unwanted_extensions))\<close>. Every
  \<^verbatim>\<open>Destination\<close> is a string at this point (lemma \<open>destination_filter_strings\<close>).
\<close>

fun wanted_extension :: "cell \<Rightarrow> bool" where
  "wanted_extension (Str s) = (\<not> list_ex (endswith (lower s)) unwanted_extensions)"
| "wanted_extension c = False"

definition extension_filter :: "table \<Rightarrow> error + table" where
  "extension_filter df =
     (if ''Destination'' \<in> set (columns df)
      then Inr (filter_rows (\<lambda>r. wanted_extension (cell_at (columns df) ''Destination'' r)) df)
      else Inl (MissingColumn ''Destination''))"

definition anchor_presence_filter :: "table \<Rightarrow> table" where
  "anchor_presence_filter df =
     (if ''Anchor'' \<in> set (columns df)
      then filter_rows
             (\<lambda>r. cell_at (columns df) ''Anchor'' r \<noteq> Null
                   \<and> ne_cell (cell_at (columns df) ''Anchor'' r) (Str [])) df
      else df)"

text \<open>\<^verbatim>\<open>anchor_counts[anchor_counts > 5].index\<close>\<close>

definition overused :: "cell list \<Rightarrow> cell list" where
  "overused vals = map fst (filter (\<lambda>p. 5 < snd p) (value_counts vals))"

definition anchor_overuse_filter :: "table \<Rightarrow> table" where
  "anchor_overuse_filter df =
     (if ''Anchor'' \<in> set (columns df)
      then filter_rows
             (\<lambda>r. cell_at (columns df) ''Anchor'' r \<notin> set (overused (column_values ''Anchor'' df))) df
      else df)"

definition self_link_filter :: "table \<Rightarrow> table" where
  "self_link_filter df =
     filter_rows (\<lambda>r. ne_cell (cell_at (columns df) ''Source'' r) (cell_at (columns df) ''Destination'' r)) df"

definition clean_status_200 :: "table \<Rightarrow> error + table" where
  "clean_status_200 df =
     (case drop_duplicates [''Source'', ''Destination''] df of
        Inl e \<Rightarrow> Inl e
      | Inr deduped \<Rightarrow>
          (case extension_filter deduped of
             Inl e \<Rightarrow> Inl e
           | Inr kept \<Rightarrow>
               Inr (self_link_filter (anchor_overuse_filter (anchor_presence_filter kept)))))"

subsection \<open>Counts and final sort (lines 104 to 117)\<close>

definition finish :: "table \<Rightarrow> table \<times> (cell \<times> nat) list" where
  "finish df =
     (let with_urls = assign_column ''unique_urls'' ''Destination'' df;
          unique_urls_counts = value_counts (column_values ''Destination'' with_urls);
          without_urls = drop_columns [''unique_urls''] with_urls
      in (sort_values ''Source'' without_urls, unique_urls_counts))"

subsection \<open>\<^verbatim>\<open>process_data\<close>\<close>

definition process_data :: "table \<Rightarrow> error + (table \<times> (cell \<times> nat) list)" where
  "process_data df =
     (case detect_main_domain df of
        Inl e \<Rightarrow> Inl e
      | Inr main_domain \<Rightarrow>
          (case destination_filter main_domain (object_dtype ''Destination'' df) (prepare df) of
             Inl e \<Rightarrow> Inl e
           | Inr internal \<Rightarrow>
               (case clean_status_200 (status_200 internal) of
                  Inl e \<Rightarrow> Inl e
                | Inr df_status_200 \<Rightarrow> Inr (finish df_status_200))))"

section \<open>Example frames\<close>

text \<open>Scenario A of the specification, with the two rows in descending order of \<^verbatim>\<open>Source\<close>.\<close>

definition scenario_A :: table where
  "scenario_A =
     \<lparr>columns = [''Source'', ''Destination'', ''Status Code'', ''Link Position'', ''Anchor''],
      rows = [[Str ''http://a.com/p2'', Str ''http://a.com/x'', Num 200, Str ''Content'', Str ''click''],
              [Str ''http://a.com/p1'', Str ''http://a.com/x'', Num 200, Str ''Content'', Str ''click2'']]\<rparr>"

definition scenario_A_cleaned :: table where
  "scenario_A_cleaned =
     \<lparr>columns = [''Source'', ''Destination'', ''Anchor''],
      rows = [[Str ''http://a.com/p1'', Str ''http://a.com/x'', Str ''click2''],
              [Str ''http://a.com/p2'', Str ''http://a.com/x'', Str ''click'']]\<rparr>"

definition scenario_A_counts :: "(cell \<times> nat) list" where
  "scenario_A_counts = [(Str ''http://a.com/x'', 2)]"

text \<open>The same link reported twice, both times with status 200.\<close>

definition duplicate_links :: table where
  "duplicate_links =
     \<lparr>columns = [''Source'', ''Destination'', ''Status Code''],
      rows = [[Str ''http://a.com/p'', Str ''http://a.com/q'', Num 200],
              [Str ''http://a.com/p'', Str ''http://a.com/q'', Num 200]]\<rparr>"

definition duplicate_links_200 :: table where
  "duplicate_links_200 =
     \<lparr>columns = [''Source'', ''Destination''],
      rows = [[Str ''http://a.com/p'', Str ''http://a.com/q''],
              [Str ''http://a.com/p'', Str ''http://a.com/q'']]\<rparr>"

definition duplicate_links_cleaned :: table where
  "duplicate_links_cleaned =
     \<lparr>columns = [''Source'', ''Destination''],
      rows = [[Str ''http://a.com/p'', Str ''http://a.com/q'']]\<rparr>"

text \<open>
  Three different pages of one site and one page of another site that links twice: the
  most frequent \<^verbatim>\<open>Source\<close> URL is not on the most frequent site.
\<close>

definition two_sites :: table where
  "two_sites =
     \<lparr>columns = [''Source'', ''Destination''],
      rows = [[Str ''http://a.com/p1'', Str ''http://a.com/x''],
              [Str ''http://a.com/p2'', Str ''http://a.com/x''],
              [Str ''http://a.com/p3'', Str ''http://a.com/x''],
              [Str ''http://b.com/x'', Str ''http://a.com/x''],
              [Str ''http://b.com/x'', Str ''http://a.com/y'']]\<rparr>"

text \<open>Two sites with two source rows each; the first row belongs to \<^verbatim>\<open>b.com\<close>.\<close>

definition tied_sites :: table where
  "tied_sites =
     \<lparr>columns = [''Source'', ''Destination''],
      rows = [[Str ''http://b.com/1'', Str ''http://b.com/x''],
              [Str ''http://a.com/1'', Str ''http://a.com/x''],
              [Str ''http://a.com/2'', Str ''http://a.com/x''],
              [Str ''http://b.com/2'', Str ''http://b.com/x'']]\<rparr>"

text \<open>Two frames with a column between \<^verbatim>\<open>Follow\<close> and \<^verbatim>\<open>Link Path\<close>, in either order.\<close>

definition follow_first :: table where
  "follow_first =
     \<lparr>columns = [''Source'', ''Follow'', ''Target'', ''Link Path'', ''Destination''],
      rows = [[Str ''http://a.com/p'', Str ''true'', Null, Str ''//a'', Str ''http://a.com/q'']]\<rparr>"

definition link_path_first :: table where
  "link_path_first =
     \<lparr>columns = [''Source'', ''Link Path'', ''Target'', ''Follow'', ''Destination''],
      rows = [[Str ''http://a.com/p'', Str ''//a'', Null, Str ''true'', Str ''http://a.com/q'']]\<rparr>"

text \<open>A frame whose \<^verbatim>\<open>Destination\<close> column stands between \<^verbatim>\<open>Follow\<close> and \<^verbatim>\<open>Link Path\<close>.\<close>

definition destination_in_range :: table where
  "destination_in_range =
     \<lparr>columns = [''Source'', ''Follow'', ''Destination'', ''Link Path''],
      rows = [[Str ''http://a.com/p'', Str ''true'', Str ''http://a.com/q'', Str ''//a'']]\<rparr>"

text \<open>Frames without a \<^verbatim>\<open>Source\<close> column, without rows, without a \<^verbatim>\<open>Destination\<close>
  column, and with a missing \<^verbatim>\<open>Source\<close> value.\<close>

definition no_source :: table where
  "no_source = \<lparr>columns = [''Destination''], rows = [[Str ''http://a.com/q'']]\<rparr>"

definition no_rows :: table where
  "no_rows = \<lparr>columns = [''Source''], rows = []\<rparr>"

definition no_destination :: table where
  "no_destination = \<lparr>columns = [''Source'', ''Anchor''], rows = [[Str ''http://a.com/p'', Str ''home'']]\<rparr>"

definition missing_source_value :: table where
  "missing_source_value =
     \<lparr>columns = [''Source'', ''Destination''],
      rows = [[Str ''http://a.com/p'', Str ''http://a.com/q''],
              [Null, Str ''http://a.com/q'']]\<rparr>"

text \<open>Scenario D: the anchor \<^verbatim>\<open>more\<close> on six links, the anchor \<^verbatim>\<open>home\<close> on five.\<close>

definition scenario_D :: table where
  "scenario_D =
     \<lparr>columns = [''Source'', ''Destination'', ''Anchor''],
      rows = [[Str ''http://a.com/p01'', Str ''http://a.com/x'', Str ''more''],
              [Str ''http://a.com/p02'', Str ''http://a.com/x'', Str ''home''],
              [Str ''http://a.com/p03'', Str ''http://a.com/x'', Str ''more''],
              [Str ''http://a.com/p04'', Str ''http://a.com/x'', Str ''home''],
              [Str ''http://a.com/p05'', Str ''http://a.com/x'', Str ''more''],
              [Str ''http://a.com/p06'', Str ''http://a.com/x'', Str ''home''],
              [Str ''http://a.com/p07'', Str ''http://a.com/x'', Str ''more''],
              [Str ''http://a.com/p08'', Str ''http://a.com/x'', Str ''home''],
              [Str ''http://a.com/p09'', Str ''http://a.com/x'', Str ''more''],
              [Str ''http://a.com/p10'', Str ''http://a.com/x'', Str ''home''],
              [Str ''http://a.com/p11'', Str ''http://a.com/x'', Str ''more'']]\<rparr>"




text \<open>A link from \<^verbatim>\<open>www.a.com\<close> to another site, \<^verbatim>\<open>wwwxa.com\<close>.\<close>

definition lookalike :: table where
  "lookalike =
     \<lparr>columns = [''Source'', ''Destination''],
      rows = [[Str ''http://www.a.com/p'', Str ''http://wwwxa.com/q'']]\<rparr>"

section \<open>Lemmas about frames\<close>

lemma columns_filter_rows [simp]: "columns (filter_rows p df) = columns df"
  by (simp add: filter_rows_def)

lemma rows_filter_rows [simp]: "rows (filter_rows p df) = filter p (rows df)"
  by (simp add: filter_rows_def)

lemma columns_drop_columns [simp]:
  "columns (drop_columns cs df) = filter (\<lambda>k. k \<notin> set cs) (columns df)"
  by (simp add: drop_columns_def)

lemma rows_drop_columns [simp]:
  "rows (drop_columns cs df) = map (drop_cells cs (columns df)) (rows df)"
  by (simp add: drop_columns_def)

lemma cell_at_drop_cells:
  "c \<notin> set cs \<Longrightarrow> cell_at (filter (\<lambda>k. k \<notin> set cs) ks) c (drop_cells cs ks vs) = cell_at ks c vs"
  by (induction cs ks vs rule: drop_cells.induct) auto

lemma length_drop_cells:
  "length vs = length ks \<Longrightarrow> length (drop_cells cs ks vs) = length (filter (\<lambda>k. k \<notin> set cs) ks)"
  by (induction cs ks vs rule: drop_cells.induct) auto

lemma frame_filter_rows: "frame df \<Longrightarrow> frame (filter_rows p df)"
  by (simp add: frame_def list_all_iff)

lemma frame_drop_columns: "frame df \<Longrightarrow> frame (drop_columns cs df)"
  by (simp add: frame_def list_all_iff length_drop_cells)

lemma column_values_filter_rows:
  "column_values c (filter_rows p df) = map (cell_at (columns df) c) (filter p (rows df))"
  by (simp add: column_values_def)

lemma column_values_drop_columns:
  "c \<notin> set cs \<Longrightarrow> column_values c (drop_columns cs df) = column_values c df"
  by (simp add: column_values_def cell_at_drop_cells)

lemma drop_cells_append_new:
  "length vs = length ks \<Longrightarrow> drop_cells [new] (ks @ [new]) (vs @ [x]) = drop_cells [new] ks vs"
  by (induction "[new]" ks vs rule: drop_cells.induct) auto

lemma drop_cells_set_cell:
  "drop_cells [new] ks (set_cell ks new x vs) = drop_cells [new] ks vs"
  by (induction ks new x vs rule: set_cell.induct) auto

lemma drop_assign_column:
  "frame df \<Longrightarrow> drop_columns [new] (assign_column new src df) = drop_columns [new] df"
  by (auto simp: frame_def list_all_iff drop_columns_def assign_column_def drop_cells_append_new drop_cells_set_cell)

lemma cell_at_append_new:
  "length vs = length ks \<Longrightarrow> c \<in> set ks \<Longrightarrow> cell_at (ks @ [new]) c (vs @ [x]) = cell_at ks c vs"
  by (induction ks c vs rule: cell_at.induct) auto

lemma cell_at_set_cell:
  "c \<noteq> new \<Longrightarrow> cell_at ks c (set_cell ks new x vs) = cell_at ks c vs"
  by (induction ks new x vs rule: set_cell.induct) auto

lemma column_values_assign_column:
  "frame df \<Longrightarrow> c \<noteq> new \<Longrightarrow> c \<in> set (columns df) \<Longrightarrow>
   column_values c (assign_column new src df) = column_values c df"
  by (auto simp: frame_def list_all_iff column_values_def assign_column_def cell_at_append_new cell_at_set_cell)

section \<open>Lemmas about counting\<close>

lemma set_first_seen [simp]: "set (first_seen xs) = set xs"
  by (induction xs) auto

lemma distinct_first_seen [simp]: "distinct (first_seen xs)"
  by (induction xs) auto

lemma first_seen_Nil_iff [simp]: "first_seen xs = [] \<longleftrightarrow> xs = []"
  by (cases xs) auto

lemma map_fst_Counter [simp]: "map fst (Counter xs) = first_seen xs"
  by (simp add: Counter_def comp_def)

lemma set_Counter: "set (Counter xs) = (\<lambda>x. (x, count_list xs x)) ` set xs"
  by (simp add: Counter_def)

lemma Counter_Nil_iff [simp]: "Counter xs = [] \<longleftrightarrow> xs = []"
  by (simp add: Counter_def)

lemma sum_snd_Counter: "sum_list (map snd (Counter xs)) = length xs"
proof -
  have "sum_list (map snd (Counter xs)) = sum_list (map (count_list xs) (first_seen xs))"
    by (simp add: Counter_def comp_def)
  also have "\<dots> = sum (count_list xs) (set (first_seen xs))"
    by (simp add: sum_list_distinct_conv_sum_set)
  also have "\<dots> = length xs"
    by (simp add: sum_count_set)
  finally show ?thesis .
qed

lemma count_list_filter:
  "count_list (filter P xs) x = (if P x then count_list xs x else 0)"
  by (induction xs) auto

lemma mset_value_counts:
  "mset (value_counts vals) = mset (Counter (filter (\<lambda>v. v \<noteq> Null) vals))"
  by (simp add: value_counts_def)

lemma set_value_counts:
  "set (value_counts vals) =
     (\<lambda>v. (v, count_list vals v)) ` (set vals - {Null})"
proof -
  have "set (value_counts vals) = set (Counter (filter (\<lambda>v. v \<noteq> Null) vals))"
    by (simp add: value_counts_def)
  also have "\<dots> = (\<lambda>v. (v, count_list vals v)) ` (set vals - {Null})"
    by (auto simp: set_Counter count_list_filter)
  finally show ?thesis .
qed

lemma distinct_fst_value_counts: "distinct (map fst (value_counts vals))"
proof -
  let ?c = "Counter (filter (\<lambda>v. v \<noteq> Null) vals)"
  have "mset (value_counts vals) = mset ?c"
    by (simp add: value_counts_def)
  then have "mset (map fst (value_counts vals)) = mset (map fst ?c)"
    by (metis mset_map)
  then have "mset (map fst (value_counts vals)) = mset (first_seen (filter (\<lambda>v. v \<noteq> Null) vals))"
    by (simp only: map_fst_Counter)
  then show ?thesis
    by (metis distinct_first_seen mset_eq_imp_distinct_iff)
qed

lemma sum_snd_value_counts:
  "sum_list (map snd (value_counts vals)) = length (filter (\<lambda>v. v \<noteq> Null) vals)"
proof -
  have "mset (map snd (value_counts vals)) = mset (map snd (Counter (filter (\<lambda>v. v \<noteq> Null) vals)))"
    by (simp add: value_counts_def)
  then have "sum_list (map snd (value_counts vals)) = sum_list (map snd (Counter (filter (\<lambda>v. v \<noteq> Null) vals)))"
    by (metis sum_mset_sum_list)
  then show ?thesis
    by (simp add: sum_snd_Counter)
qed

lemma max_first_mem: "max_first b xs \<in> set (b # xs)"
  by (induction xs arbitrary: b) (auto split: if_splits)

lemma max_first_ge: "y \<in> set (b # xs) \<Longrightarrow> snd y \<le> snd (max_first b xs)"
proof (induction xs arbitrary: b y)
  case Nil
  then show ?case by simp
next
  case (Cons x xs)
  have step: "snd (if snd b < snd x then x else b) \<le> snd (max_first (if snd b < snd x then x else b) xs)"
    by (rule Cons.IH) simp
  show ?case
  proof (cases "y \<in> set xs")
    case True
    then show ?thesis using Cons.IH [of y "if snd b < snd x then x else b"] by simp
  next
    case False
    with Cons.prems have "y = b \<or> y = x" by auto
    then show ?thesis using step by (auto split: if_splits)
  qed
qed

lemma max_first_earliest:
  "\<exists>pre post. b # xs = pre @ max_first b xs # post \<and> (\<forall>y\<in>set pre. snd y < snd (max_first b xs))"
proof (induction xs arbitrary: b)
  case Nil
  show ?case by (rule exI [of _ "[]"]) simp
next
  case (Cons x xs)
  show ?case
  proof (cases "snd b < snd x")
    case True
    from Cons.IH [of x] obtain pre post where
      d: "x # xs = pre @ max_first x xs # post" and s: "\<forall>y\<in>set pre. snd y < snd (max_first x xs)"
      by blast
    have "snd x \<le> snd (max_first x xs)" by (rule max_first_ge) simp
    with True have lt: "snd b < snd (max_first x xs)" by simp
    have m: "max_first b (x # xs) = max_first x xs" using True by simp
    have "b # x # xs = (b # pre) @ max_first x xs # post" using d by simp
    moreover have "\<forall>y\<in>set (b # pre). snd y < snd (max_first x xs)" using s lt by simp
    ultimately show ?thesis unfolding m by blast
  next
    case False
    from Cons.IH [of b] obtain pre post where
      d: "b # xs = pre @ max_first b xs # post" and s: "\<forall>y\<in>set pre. snd y < snd (max_first b xs)"
      by blast
    show ?thesis
    proof (cases pre)
      case Nil
      with d have "max_first b xs = b" by auto
      with False have "b # x # xs = [] @ max_first b (x # xs) # (x # xs)" by simp
      moreover have "\<forall>y\<in>set []. snd y < snd (max_first b (x # xs))" by simp
      ultimately show ?thesis by blast
    next
      case (Cons p pre')
      with d have pb: "p = b" and xs: "xs = pre' @ max_first b xs # post" by auto
      from s Cons pb have "snd b < snd (max_first b xs)" by simp
      with False have lt: "snd x < snd (max_first b xs)" by simp
      have m: "max_first b (x # xs) = max_first b xs" using False by simp
      have "b # x # xs = (b # x # pre') @ max_first b xs # post" using xs by simp
      moreover have "\<forall>y\<in>set (b # x # pre'). snd y < snd (max_first b xs)"
        using s Cons pb lt by simp
      ultimately show ?thesis unfolding m by blast
    qed
  qed
qed

lemma index_of_less_length: "x \<in> set xs \<Longrightarrow> index_of x xs < length xs"
  by (induction xs) auto

lemma nth_index_of: "x \<in> set xs \<Longrightarrow> xs ! index_of x xs = x"
  by (induction xs) auto

lemma first_seen_sorted:
  "sorted_wrt (\<lambda>a b. index_of a xs < index_of b xs) (first_seen xs)"
proof (induction xs)
  case Nil
  show ?case by simp
next
  case (Cons x xs)
  have "sorted_wrt (\<lambda>a b. index_of a xs < index_of b xs) (filter (\<lambda>y. y \<noteq> x) (first_seen xs))"
    using Cons.IH by (rule sorted_wrt_filter)
  then have "sorted_wrt (\<lambda>a b. index_of a (x # xs) < index_of b (x # xs)) (filter (\<lambda>y. y \<noteq> x) (first_seen xs))"
    by (rule sorted_wrt_mono_rel [rotated]) auto
  then show ?case by auto
qed

section \<open>Lemmas about the pipeline\<close>

subsection \<open>Rows and columns through the steps\<close>

lemma frame_drop_initial: "frame df \<Longrightarrow> frame (drop_initial df)"
  by (simp add: drop_initial_def frame_drop_columns)

lemma frame_drop_range: "frame df \<Longrightarrow> frame (drop_range df)"
  by (simp add: drop_range_def frame_drop_columns)

lemma frame_link_position_filter: "frame df \<Longrightarrow> frame (link_position_filter df)"
  by (simp add: link_position_filter_def frame_filter_rows)

lemma frame_drop_final: "frame df \<Longrightarrow> frame (drop_final df)"
  by (simp add: drop_final_def frame_drop_columns)

lemma frame_prepare: "frame df \<Longrightarrow> frame (prepare df)"
  by (simp add: prepare_def frame_drop_final frame_link_position_filter frame_drop_range
      frame_drop_initial)

lemma destination_filter_Inr:
  assumes "destination_filter main_domain text_dtype df = Inr out"
  shows "out = filter_rows (\<lambda>r. str_contains main_domain (cell_at (columns df) ''Destination'' r)) df"
    and "''Destination'' \<in> set (columns df)"
    and "plain_pattern main_domain"
    and "str_accessor_ok text_dtype (column_values ''Destination'' df)"
  using assms by (auto simp: destination_filter_def split: if_splits)

lemma str_contains_is_Str: "str_contains pat c \<Longrightarrow> is_Str c"
  by (cases c) auto

lemma destination_filter_strings:
  assumes "destination_filter main_domain text_dtype df = Inr out"
  shows "list_all is_Str (column_values ''Destination'' out)"
  using destination_filter_Inr(1) [OF assms]
  by (auto simp: list_all_iff column_values_def str_contains_is_Str)

lemma frame_destination_filter:
  "frame df \<Longrightarrow> destination_filter main_domain text_dtype df = Inr out \<Longrightarrow> frame out"
  by (auto simp: frame_filter_rows dest!: destination_filter_Inr(1))

lemma frame_status_200: "frame df \<Longrightarrow> frame (status_200 df)"
  by (simp add: status_200_def frame_drop_columns frame_filter_rows)

lemma Destination_status_200:
  "''Destination'' \<in> set (columns df) \<Longrightarrow> ''Destination'' \<in> set (columns (status_200 df))"
  by (simp add: status_200_def)

lemma cell_at_drop_cells1:
  "c \<noteq> d \<Longrightarrow> cell_at (filter (\<lambda>k. k \<noteq> d) ks) c (drop_cells [d] ks vs) = cell_at ks c vs"
  using cell_at_drop_cells [of c "[d]" ks vs] by simp

lemma strings_status_200:
  "list_all is_Str (column_values ''Destination'' df) \<Longrightarrow>
   list_all is_Str (column_values ''Destination'' (status_200 df))"
  by (auto simp: status_200_def list_all_iff column_values_def cell_at_drop_cells1)

lemma set_keep_first_subset: "set (keep_first key seen xs) \<subseteq> set xs"
  by (induction key seen xs rule: keep_first.induct) auto

lemma clean_status_200_Inr:
  assumes "clean_status_200 df = Inr out"
  shows "columns out = columns df" and "set (rows out) \<subseteq> set (rows df)"
    and "''Source'' \<in> set (columns df)" and "''Destination'' \<in> set (columns df)"
proof -
  from assms obtain deduped kept where
    d: "drop_duplicates [''Source'', ''Destination''] df = Inr deduped" and
    k: "extension_filter deduped = Inr kept" and
    o: "out = self_link_filter (anchor_overuse_filter (anchor_presence_filter kept))"
    by (auto simp: clean_status_200_def split: sum.splits)
  from d have dc: "columns deduped = columns df" and dr: "set (rows deduped) \<subseteq> set (rows df)"
    and sd: "''Source'' \<in> set (columns df)" "''Destination'' \<in> set (columns df)"
    by (auto simp: drop_duplicates_def split: if_splits dest: set_keep_first_subset [THEN subsetD])
  from k have kc: "columns kept = columns deduped" and kr: "set (rows kept) \<subseteq> set (rows deduped)"
    by (auto simp: extension_filter_def split: if_splits)
  from o have oc: "columns out = columns kept" and orr: "set (rows out) \<subseteq> set (rows kept)"
    by (auto simp: self_link_filter_def anchor_overuse_filter_def anchor_presence_filter_def)
  show "columns out = columns df" using dc kc oc by simp
  show "set (rows out) \<subseteq> set (rows df)" using dr kr orr by blast
  show "''Source'' \<in> set (columns df)" "''Destination'' \<in> set (columns df)" using sd by simp_all
qed

lemma frame_clean_status_200:
  "frame df \<Longrightarrow> clean_status_200 df = Inr out \<Longrightarrow> frame out"
  using clean_status_200_Inr(1,2) [of df out] by (auto simp: frame_def list_all_iff)

lemma strings_clean_status_200:
  "list_all is_Str (column_values ''Destination'' df) \<Longrightarrow> clean_status_200 df = Inr out \<Longrightarrow>
   list_all is_Str (column_values ''Destination'' out)"
  using clean_status_200_Inr(1,2) [of df out] by (auto simp: column_values_def list_all_iff)

lemma process_data_Inr:
  assumes "process_data df = Inr res"
  obtains main_domain internal df_status_200 where
    "detect_main_domain df = Inr main_domain"
    "destination_filter main_domain (object_dtype ''Destination'' df) (prepare df) = Inr internal"
    "clean_status_200 (status_200 internal) = Inr df_status_200"
    "res = finish df_status_200"
  using assms by (auto simp: process_data_def split: sum.splits)

subsection \<open>Results of a successful run\<close>

lemma finish_eq:
  assumes "frame df" and "''Destination'' \<in> set (columns df)"
  shows "finish df =
    (sort_values ''Source'' (drop_columns [''unique_urls''] df),
     value_counts (column_values ''Destination'' df))"
  using assms by (simp add: finish_def Let_def drop_assign_column column_values_assign_column)

lemma columns_sort_values [simp]: "columns (sort_values c df) = columns df"
  by (simp add: sort_values_def)

lemma mset_rows_sort_values: "mset (rows (sort_values c df)) = mset (rows df)"
  by (simp add: sort_values_def)

lemma mset_column_values_sort_values:
  "mset (column_values c (sort_values s df)) = mset (column_values c df)"
  by (simp add: sort_values_def column_values_def)

lemma length_rows_sort_values [simp]: "length (rows (sort_values c df)) = length (rows df)"
  by (simp add: sort_values_def)

lemma strings_no_Null: "list_all is_Str vals \<Longrightarrow> filter (\<lambda>v. v \<noteq> Null) vals = vals"
  by (induction vals) auto

lemma strings_minus_Null: "list_all is_Str vals \<Longrightarrow> set vals - {Null} = set vals"
  by (auto simp: list_all_iff)

lemma one_entry:
  "distinct (map fst ps) \<Longrightarrow> (v, n) \<in> set ps \<Longrightarrow> length (filter (\<lambda>p. fst p = v) ps) = 1"
proof (induction ps)
  case Nil
  then show ?case by simp
next
  case (Cons p ps)
  show ?case
  proof (cases "fst p = v")
    case True
    with Cons.prems have "v \<notin> fst ` set ps" by simp
    then have "\<forall>q\<in>set ps. fst q \<noteq> v" by auto
    then have "filter (\<lambda>p. fst p = v) ps = []" by (simp add: filter_empty_conv)
    with True show ?thesis by simp
  next
    case False
    with Cons show ?thesis by auto
  qed
qed

text \<open>What a successful run returns, in terms of the rows left after the self-link filter.\<close>

lemma process_data_result:
  assumes "frame df" and "process_data df = Inr (cleaned, counts)"
  obtains df_status_200 where
    "cleaned = sort_values ''Source'' (drop_columns [''unique_urls''] df_status_200)"
    "counts = value_counts (column_values ''Destination'' df_status_200)"
    "list_all is_Str (column_values ''Destination'' df_status_200)"
    "''Source'' \<in> set (columns df_status_200)"
proof -
  from assms(2) obtain main_domain internal df_status_200 where
    i: "destination_filter main_domain (object_dtype ''Destination'' df) (prepare df) = Inr internal"
    and c: "clean_status_200 (status_200 internal) = Inr df_status_200"
    and r: "(cleaned, counts) = finish df_status_200"
    by (rule process_data_Inr)
  have fi: "frame internal"
    using frame_prepare [OF assms(1)] i by (rule frame_destination_filter)
  have f: "frame df_status_200"
    using frame_status_200 [OF fi] c by (rule frame_clean_status_200)
  have s: "list_all is_Str (column_values ''Destination'' df_status_200)"
    using strings_status_200 [OF destination_filter_strings [OF i]] c
    by (rule strings_clean_status_200)
  have d: "''Destination'' \<in> set (columns df_status_200)" "''Source'' \<in> set (columns df_status_200)"
    using clean_status_200_Inr [OF c] by simp_all
  from r finish_eq [OF f d(1)] have
    "cleaned = sort_values ''Source'' (drop_columns [''unique_urls''] df_status_200)"
    "counts = value_counts (column_values ''Destination'' df_status_200)"
    by simp_all
  then show ?thesis using s d(2) by (rule that)
qed

lemma apply_series_Inr_iff: "apply_series f xs = Inr ys \<longleftrightarrow> map f xs = map Inr ys"
proof (induction xs arbitrary: ys)
  case Nil
  show ?case by auto
next
  case (Cons x xs)
  show ?case
  proof (cases "f x")
    case (Inl e)
    then show ?thesis by auto
  next
    case (Inr y)
    show ?thesis
    proof (cases "apply_series f xs")
      case (Inl e)
      with Inr Cons.IH show ?thesis by (cases ys) auto
    next
      case (Inr zs)
      with \<open>f x = Inr y\<close> Cons.IH [of zs] Cons.IH show ?thesis by (cases ys) auto
    qed
  qed
qed

text \<open>The item \<^verbatim>\<open>most_common(1)\<close> picks from a counter.\<close>

lemma most_common1_Counter:
  assumes "xs \<noteq> []"
  shows "\<exists>d. most_common1 (Counter xs) = [(d, count_list xs d)] \<and> d \<in> set xs \<and>
           (\<forall>e\<in>set xs. count_list xs e \<le> count_list xs d) \<and>
           (\<forall>e\<in>set xs. e \<noteq> d \<and> count_list xs e = count_list xs d \<longrightarrow>
               index_of d xs < index_of e xs)"
proof -
  from assms obtain x items where c: "Counter xs = x # items"
    by (cases "Counter xs") auto
  define m where "m = max_first x items"
  have mc: "most_common1 (Counter xs) = [m]"
    by (simp add: most_common1_def c m_def)
  have "m \<in> set (Counter xs)"
    unfolding c m_def by (rule max_first_mem)
  then have md: "m = (fst m, count_list xs (fst m))" and dm: "fst m \<in> set xs"
    by (auto simp: set_Counter)
  have ge: "count_list xs e \<le> count_list xs (fst m)" if "e \<in> set xs" for e
  proof -
    from that have "(e, count_list xs e) \<in> set (x # items)"
      unfolding c [symmetric] by (simp add: set_Counter)
    then have "snd (e, count_list xs e) \<le> snd m"
      unfolding m_def by (rule max_first_ge)
    with md show ?thesis by (metis snd_conv)
  qed
  have first: "index_of (fst m) xs < index_of e xs"
    if e: "e \<in> set xs" "e \<noteq> fst m" "count_list xs e = count_list xs (fst m)" for e
  proof -
    from max_first_earliest [of x items] obtain pre post where
      split: "Counter xs = pre @ m # post" and less: "\<forall>y\<in>set pre. snd y < snd m"
      unfolding c m_def by blast
    have "(e, count_list xs e) \<in> set (Counter xs)"
      using e(1) by (simp add: set_Counter)
    moreover have "(e, count_list xs e) \<notin> set pre"
      using less e(3) md by (metis less_irrefl snd_conv)
    moreover have "(e, count_list xs e) \<noteq> m"
      using e(2) by auto
    ultimately have "(e, count_list xs e) \<in> set post"
      unfolding split by auto
    then have ep: "e \<in> set (map fst post)" by force
    have "first_seen xs = map fst pre @ fst m # map fst post"
      using split map_fst_Counter [of xs] by (metis list.simps(9) map_append)
    with first_seen_sorted [of xs]
    have "sorted_wrt (\<lambda>a b. index_of a xs < index_of b xs) (map fst pre @ fst m # map fst post)"
      by simp
    then show ?thesis using ep by (auto simp: sorted_wrt_append)
  qed
  from mc md have "most_common1 (Counter xs) = [(fst m, count_list xs (fst m))]" by simp
  with dm ge first show ?thesis by blast
qed

lemma detect_main_domain_eq:
  assumes "''Source'' \<in> set (columns df)"
    and "map extract_main_domain (column_values ''Source'' df) = map Inr domains"
    and "most_common1 (Counter domains) = [(d, n)]"
  shows "detect_main_domain df = Inr d"
proof -
  have a: "apply_series extract_main_domain (column_values ''Source'' df) = Inr domains"
    using assms(2) by (simp add: apply_series_Inr_iff)
  have "Counter domains \<noteq> []"
    using assms(3) by (cases "Counter domains") (auto simp: most_common1_def)
  with assms(1,3) a show ?thesis
    by (simp add: detect_main_domain_def Let_def)
qed

subsection \<open>Dropping a block of neighbouring columns\<close>

lemma drop_cells_append:
  "length vs1 = length ks1 \<Longrightarrow>
   drop_cells cs (ks1 @ ks2) (vs1 @ vs2) = drop_cells cs ks1 vs1 @ drop_cells cs ks2 vs2"
  by (induction cs ks1 vs1 rule: drop_cells.induct) auto

lemma drop_cells_disjoint:
  "set ks \<inter> set cs = {} \<Longrightarrow> length vs = length ks \<Longrightarrow> drop_cells cs ks vs = vs"
  by (induction cs ks vs rule: drop_cells.induct) auto

lemma drop_cells_all: "set ks \<subseteq> set cs \<Longrightarrow> drop_cells cs ks vs = []"
  by (induction cs ks vs rule: drop_cells.induct) auto

lemma drop_cells_block:
  assumes "distinct (A @ B @ C)" and "length va = length A" and "length vb = length B"
    and "length vc = length C"
  shows "drop_cells B (A @ B @ C) (va @ vb @ vc) = va @ vc"
proof -
  from assms(1) have "set A \<inter> set B = {}" "set C \<inter> set B = {}" by auto
  then show ?thesis
    using assms(2-4) by (simp add: drop_cells_append drop_cells_disjoint drop_cells_all)
qed

lemma filter_block:
  assumes "distinct (A @ B @ C)"
  shows "filter (\<lambda>k. k \<notin> set B) (A @ B @ C) = A @ C"
proof -
  from assms have "\<forall>k\<in>set A. k \<notin> set B" "\<forall>k\<in>set C. k \<notin> set B" by auto
  then show ?thesis by (simp add: filter_id_conv filter_empty_conv)
qed

lemma block_split:
  assumes "i \<le> j" and "j < length xs"
  shows "xs = take i xs @ take (Suc j - i) (drop i xs) @ drop (Suc j) xs"
proof -
  have "drop i xs = take (Suc j - i) (drop i xs) @ drop (Suc j - i) (drop i xs)"
    by (rule append_take_drop_id [symmetric])
  moreover have "drop (Suc j - i) (drop i xs) = drop (Suc j) xs"
    using assms by simp
  ultimately have "drop i xs = take (Suc j - i) (drop i xs) @ drop (Suc j) xs" by simp
  then show ?thesis by (metis append_take_drop_id)
qed

lemma drop_columns_block:
  assumes "frame df" and "i \<le> j" and "j < length (columns df)"
  shows "columns (drop_columns (take (Suc j - i) (drop i (columns df))) df) =
           take i (columns df) @ drop (Suc j) (columns df)"
    and "rows (drop_columns (take (Suc j - i) (drop i (columns df))) df) =
           map (\<lambda>r. take i r @ drop (Suc j) r) (rows df)"
proof -
  let ?cols = "columns df"
  let ?B = "take (Suc j - i) (drop i ?cols)"
  have split: "?cols = take i ?cols @ ?B @ drop (Suc j) ?cols"
    using assms(2,3) by (rule block_split)
  have dist: "distinct (take i ?cols @ ?B @ drop (Suc j) ?cols)"
    using assms(1) split by (simp add: frame_def)
  have "filter (\<lambda>k. k \<notin> set ?B) ?cols =
        filter (\<lambda>k. k \<notin> set ?B) (take i ?cols @ ?B @ drop (Suc j) ?cols)"
    using split by simp
  also have "\<dots> = take i ?cols @ drop (Suc j) ?cols"
    using dist by (rule filter_block)
  finally show "columns (drop_columns ?B df) = take i ?cols @ drop (Suc j) ?cols"
    by simp
  have row: "drop_cells ?B ?cols r = take i r @ drop (Suc j) r" if "r \<in> set (rows df)" for r
  proof -
    from that assms(1) have len: "length r = length ?cols"
      by (simp add: frame_def list_all_iff)
    with assms(2,3) have rs: "r = take i r @ take (Suc j - i) (drop i r) @ drop (Suc j) r"
      by (intro block_split) simp_all
    have "drop_cells ?B (take i ?cols @ ?B @ drop (Suc j) ?cols)
            (take i r @ take (Suc j - i) (drop i r) @ drop (Suc j) r) =
          take i r @ drop (Suc j) r"
      using dist by (rule drop_cells_block) (simp_all add: len)
    with split rs show ?thesis by simp
  qed
  then show "rows (drop_columns ?B df) = map (\<lambda>r. take i r @ drop (Suc j) r) (rows df)"
    by simp
qed

lemma drop_cells_Nil: "length vs = length ks \<Longrightarrow> drop_cells [] ks vs = vs"
  by (rule drop_cells_disjoint) simp_all

lemma drop_columns_Nil: "frame df \<Longrightarrow> drop_columns [] df = df"
  by (simp add: drop_columns_def frame_def list_all_iff drop_cells_Nil map_idI)

subsection \<open>Columns that never come back\<close>

lemma columns_link_position_filter [simp]: "columns (link_position_filter df) = columns df"
  by (simp add: link_position_filter_def)

lemma columns_drop_initial_subset: "set (columns (drop_initial df)) \<subseteq> set (columns df)"
  by (auto simp: drop_initial_def)

lemma columns_drop_range_subset: "set (columns (drop_range df)) \<subseteq> set (columns df)"
  by (auto simp: drop_range_def)

lemma columns_drop_final_subset: "set (columns (drop_final df)) \<subseteq> set (columns df)"
  by (auto simp: drop_final_def)

lemma columns_prepare_subset:
  "set (columns (prepare df)) \<subseteq> set (columns (drop_range (drop_initial df)))"
  using columns_drop_final_subset [of "link_position_filter (drop_range (drop_initial df))"]
  by (simp add: prepare_def)

lemma columns_prepare_subset_input: "set (columns (prepare df)) \<subseteq> set (columns df)"
  using columns_prepare_subset [of df] columns_drop_range_subset [of "drop_initial df"]
    columns_drop_initial_subset [of df]
  by blast

lemma missing_Destination:
  assumes "detect_main_domain df = Inr d" and "''Destination'' \<notin> set (columns (prepare df))"
  shows "process_data df = Inl (MissingColumn ''Destination'')"
  using assms by (simp add: process_data_def destination_filter_def)

lemma kept_by_drop_initial:
  "c \<in> set (columns df) \<Longrightarrow> c \<notin> set columns_to_drop_initial \<Longrightarrow> c \<in> set (columns (drop_initial df))"
  by (simp add: drop_initial_def existing_columns_def)

lemma loc_slice_columns_subset: "set (loc_slice_columns a b cols) \<subseteq> set cols"
  unfolding loc_slice_columns_def
  using set_take_subset [of "Suc (index_of b cols) - index_of a cols" "drop (index_of a cols) cols"]
    set_drop_subset [of "index_of a cols" cols]
  by blast

lemma detect_main_domain_Inr:
  assumes "detect_main_domain df = Inr d"
  shows "''Source'' \<in> set (columns df)" and "rows df \<noteq> []"
proof -
  show s: "''Source'' \<in> set (columns df)"
    using assms by (auto simp: detect_main_domain_def split: if_splits)
  show "rows df \<noteq> []"
  proof
    assume "rows df = []"
    then have "column_values ''Source'' df = []" by (simp add: column_values_def)
    with s have "detect_main_domain df = Inl EmptyDomainSet"
      by (simp add: detect_main_domain_def Counter_def)
    with assms show False by simp
  qed
qed

subsection \<open>The anchor filters\<close>

lemma overused_iff: "v \<in> set (overused vals) \<longleftrightarrow> v \<noteq> Null \<and> 5 < count_list vals v"
proof -
  have "set (overused vals) = fst ` {p \<in> set (value_counts vals). 5 < snd p}"
    by (simp add: overused_def)
  also have "\<dots> = {v \<in> set vals - {Null}. 5 < count_list vals v}"
    by (force simp: set_value_counts)
  finally have "v \<in> set (overused vals) \<longleftrightarrow> v \<in> set vals \<and> v \<noteq> Null \<and> 5 < count_list vals v"
    by auto
  moreover have "v \<in> set vals" if "5 < count_list vals v"
    using that count_list_0_iff [of vals v] by (cases "v \<in> set vals") auto
  ultimately show ?thesis by blast
qed

lemma anchor_presence_filter_rows:
  "''Anchor'' \<in> set (columns df) \<Longrightarrow>
   rows (anchor_presence_filter df) =
     filter (\<lambda>r. cell_at (columns df) ''Anchor'' r \<noteq> Null \<and> cell_at (columns df) ''Anchor'' r \<noteq> Str [])
       (rows df)"
  by (simp add: anchor_presence_filter_def ne_cell_def cong: conj_cong)

lemma columns_anchor_presence_filter [simp]: "columns (anchor_presence_filter df) = columns df"
  by (simp add: anchor_presence_filter_def)

lemma columns_anchor_overuse_filter [simp]: "columns (anchor_overuse_filter df) = columns df"
  by (simp add: anchor_overuse_filter_def)

subsection \<open>The empty pattern\<close>

lemma re_search_Nil [simp]: "re_search [] s = True"
  by (cases s) simp_all



subsection \<open>Regular expression against literal search\<close>

lemma re_match_literal:
  "CHR ''.'' \<notin> set pat \<Longrightarrow> re_match pat s = (take (length pat) s = pat)"
  by (induction pat s rule: re_match.induct) auto

lemma re_search_literal:
  "CHR ''.'' \<notin> set pat \<Longrightarrow> re_search pat s = contains_literal pat s"
  by (induction s) (auto simp: re_match_literal)

lemma literal_re_match:
  "CHR 0x0A \<notin> set pat \<Longrightarrow> take (length pat) s = pat \<Longrightarrow> re_match pat s"
  by (induction pat s rule: re_match.induct) auto

lemma literal_re_search:
  "CHR 0x0A \<notin> set pat \<Longrightarrow> contains_literal pat s \<Longrightarrow> re_search pat s"
  by (induction s) (auto simp: literal_re_match)

subsection \<open>The final sort\<close>

text \<open>
  What holds of the cleaned frame whatever order \<^verbatim>\<open>sort_values\<close> gives to rows of equal
  \<^verbatim>\<open>Source\<close>: its rows are in ascending order of \<^verbatim>\<open>Source\<close>, and they are the rows
  left after the self-link filter, each once. Nothing in the source fixes the order among
  rows of equal \<^verbatim>\<open>Source\<close>, and no statement of this theory depends on it.
\<close>

lemma sorted_sort_values:
  "sorted (map (\<lambda>r. sort_string (cell_at (columns df) c r)) (rows (sort_values c df)))"
  by (simp add: sort_values_def)

lemma cleaned_sorted:
  assumes "frame df" and "process_data df = Inr (cleaned, counts)"
  shows "sorted (map (\<lambda>r. sort_string (cell_at (columns cleaned) ''Source'' r)) (rows cleaned))"
proof -
  from assms obtain final where
    "cleaned = sort_values ''Source'' (drop_columns [''unique_urls''] final)"
    by (rule process_data_result)
  then show ?thesis
    using sorted_sort_values [of "drop_columns [''unique_urls''] final" "''Source''"] by simp
qed

lemma cleaned_permutation:
  assumes "frame df" and "process_data df = Inr (cleaned, counts)"
  obtains final where
    "mset (rows cleaned) = mset (rows (drop_columns [''unique_urls''] final))"
    "counts = value_counts (column_values ''Destination'' final)"
proof -
  from assms obtain final where
    "cleaned = sort_values ''Source'' (drop_columns [''unique_urls''] final)"
    "counts = value_counts (column_values ''Destination'' final)"
    by (rule process_data_result)
  then show ?thesis
    using that [of final] by (simp add: mset_rows_sort_values)
qed

subsection \<open>Runs on the example frames\<close>

lemma frame_scenario_A: "frame scenario_A"
  by code_simp

lemma scenario_A_run: "process_data scenario_A = Inr (scenario_A_cleaned, scenario_A_counts)"
  by code_simp

lemma frame_duplicate_links: "frame duplicate_links"
  by code_simp

lemma duplicate_links_detect: "detect_main_domain duplicate_links = Inr ''a.com''"
  by code_simp

lemma duplicate_links_internal:
  "destination_filter ''a.com'' (object_dtype ''Destination'' duplicate_links)
     (prepare duplicate_links) = Inr duplicate_links"
  by code_simp

lemma duplicate_links_clean:
  "clean_status_200 (status_200 duplicate_links) = Inr duplicate_links_cleaned"
  by code_simp

lemma tied_sites_domains:
  "map extract_main_domain (column_values ''Source'' tied_sites) =
     map Inr [''b.com'', ''a.com'', ''a.com'', ''b.com'']"
  by code_simp

lemma frame_follow_first: "frame follow_first"
  by code_simp

lemma scenario_D_reached: "anchor_presence_filter scenario_D = scenario_D"
  by code_simp

lemma scenario_D_more:
  "count_list (column_values ''Anchor'' scenario_D) (Str ''more'') = 6"
  by code_simp

lemma scenario_D_home:
  "count_list (column_values ''Anchor'' scenario_D) (Str ''home'') = 5"
  by code_simp



section \<open>The claims\<close>

subsection \<open>C1: Destination filter\<close>

text \<open>
  C1. Every \<^verbatim>\<open>Destination\<close> of the cleaned frame should contain the main domain as a
  literal substring. Line 52 searches the main domain as a regular expression, in which
  each dot stands for any character: the run on \<open>lookalike\<close> detects \<^verbatim>\<open>www.a.com\<close>
  and keeps the link to \<^verbatim>\<open>http://wwwxa.com/q\<close>, which does not contain it.
\<close>

theorem destination_without_main_domain_kept:
  "detect_main_domain lookalike = Inr ''www.a.com'' \<and>
   process_data lookalike = Inr (lookalike, [(Str ''http://wwwxa.com/q'', 1)]) \<and>
   column_values ''Destination'' lookalike = [Str ''http://wwwxa.com/q''] \<and>
   \<not> contains_literal ''www.a.com'' ''http://wwwxa.com/q''"
  by code_simp

subsection \<open>C2: What the URL counts count\<close>

text \<open>
  C2, as stated: the counts are those of the \<^verbatim>\<open>Destination\<close> values in the rows that
  passed the status filter, before the deduplication by \<^verbatim>\<open>(Source, Destination)\<close>. On
  \<open>duplicate_links\<close> that row set holds the destination twice, and the run reports it once.
\<close>

theorem url_counts_not_before_dedup:
  "detect_main_domain duplicate_links = Inr ''a.com'' \<and>
   destination_filter ''a.com'' (object_dtype ''Destination'' duplicate_links)
     (prepare duplicate_links) = Inr duplicate_links \<and>
   status_200 duplicate_links = duplicate_links_200 \<and>
   value_counts (column_values ''Destination'' duplicate_links_200) = [(Str ''http://a.com/q'', 2)] \<and>
   process_data duplicate_links = Inr (duplicate_links_cleaned, [(Str ''http://a.com/q'', 1)])"
  by code_simp

text \<open>
  C2, as amended: on a successful run \<^verbatim>\<open>unique_urls_counts\<close> has one entry for every
  distinct \<^verbatim>\<open>Destination\<close> value of the rows left after the self-link filter (step 14:
  after deduplication, extension, anchor and self-link filters), with the number of those
  rows that carry the value.
\<close>

theorem url_counts_of_final_rows:
  assumes "frame df"
    and "detect_main_domain df = Inr main_domain"
    and "destination_filter main_domain (object_dtype ''Destination'' df) (prepare df) = Inr internal"
    and "clean_status_200 (status_200 internal) = Inr df_status_200"
  shows "\<exists>cleaned counts.
           process_data df = Inr (cleaned, counts) \<and>
           distinct (map fst counts) \<and>
           set counts =
             (\<lambda>v. (v, count_list (column_values ''Destination'' df_status_200) v))
               ` set (column_values ''Destination'' df_status_200)"
proof -
  have run: "process_data df = Inr (finish df_status_200)"
    using assms(2-4) by (simp add: process_data_def)
  obtain cleaned counts where fin: "finish df_status_200 = (cleaned, counts)"
    by (cases "finish df_status_200")
  with run have "process_data df = Inr (cleaned, counts)" by simp
  from process_data_result [OF assms(1) this] obtain final where
    co: "counts = value_counts (column_values ''Destination'' final)" and
    st: "list_all is_Str (column_values ''Destination'' final)"
    by blast
  have fi: "frame internal"
    using frame_prepare [OF assms(1)] assms(3) by (rule frame_destination_filter)
  have f: "frame df_status_200"
    using frame_status_200 [OF fi] assms(4) by (rule frame_clean_status_200)
  have s: "list_all is_Str (column_values ''Destination'' df_status_200)"
    using strings_status_200 [OF destination_filter_strings [OF assms(3)]] assms(4)
    by (rule strings_clean_status_200)
  have d: "''Destination'' \<in> set (columns df_status_200)"
    using clean_status_200_Inr [OF assms(4)] by simp
  have c: "counts = value_counts (column_values ''Destination'' df_status_200)"
    using fin finish_eq [OF f d] by simp
  have "distinct (map fst counts)"
    unfolding c by (rule distinct_fst_value_counts)
  moreover have "set counts =
      (\<lambda>v. (v, count_list (column_values ''Destination'' df_status_200) v))
        ` set (column_values ''Destination'' df_status_200)"
    unfolding c by (simp add: set_value_counts strings_minus_Null [OF s])
  ultimately show ?thesis
    using \<open>process_data df = Inr (cleaned, counts)\<close> by blast
qed

theorem url_counts_of_final_rows_witness:
  "frame duplicate_links \<and>
   detect_main_domain duplicate_links = Inr ''a.com'' \<and>
   destination_filter ''a.com'' (object_dtype ''Destination'' duplicate_links)
     (prepare duplicate_links) = Inr duplicate_links \<and>
   clean_status_200 (status_200 duplicate_links) = Inr duplicate_links_cleaned \<and>
   (\<exists>cleaned counts.
      process_data duplicate_links = Inr (cleaned, counts) \<and>
      distinct (map fst counts) \<and>
      set counts = {(Str ''http://a.com/q'', 1)})"
proof -
  have "(\<lambda>v. (v, count_list (column_values ''Destination'' duplicate_links_cleaned) v))
          ` set (column_values ''Destination'' duplicate_links_cleaned) =
        {(Str ''http://a.com/q'', 1)}"
    by (simp add: duplicate_links_cleaned_def column_values_def)
  then show ?thesis
    using url_counts_of_final_rows [OF frame_duplicate_links duplicate_links_detect
        duplicate_links_internal duplicate_links_clean]
      frame_duplicate_links duplicate_links_detect duplicate_links_internal duplicate_links_clean
    by simp
qed

subsection \<open>C3: URL counts against the cleaned frame\<close>

text \<open>
  C3. On a successful run the counts of \<^verbatim>\<open>unique_urls_counts\<close> add up to the number
  of rows of the cleaned frame, and every \<^verbatim>\<open>Destination\<close> value of the cleaned frame has
  exactly one entry, whose count is the number of cleaned rows with that value.
\<close>

theorem url_counts_match_cleaned_table:
  assumes "frame df" and "process_data df = Inr (cleaned, counts)"
  shows "sum_list (map snd counts) = length (rows cleaned) \<and>
         (\<forall>v\<in>set (column_values ''Destination'' cleaned).
            length (filter (\<lambda>p. fst p = v) counts) = 1 \<and>
            (v, count_list (column_values ''Destination'' cleaned) v) \<in> set counts)"
proof -
  from assms obtain df_status_200 where
    cl: "cleaned = sort_values ''Source'' (drop_columns [''unique_urls''] df_status_200)" and
    co: "counts = value_counts (column_values ''Destination'' df_status_200)" and
    st: "list_all is_Str (column_values ''Destination'' df_status_200)"
    by (rule process_data_result)
  let ?D = "column_values ''Destination'' df_status_200"
  let ?C = "column_values ''Destination'' cleaned"
  have perm: "mset ?C = mset ?D"
    unfolding cl by (simp add: mset_column_values_sort_values column_values_drop_columns)
  have len: "length (rows cleaned) = length ?D"
    unfolding cl by (simp add: column_values_def)
  have total: "sum_list (map snd counts) = length (rows cleaned)"
    unfolding co len by (simp add: sum_snd_value_counts strings_no_Null [OF st])
  have each: "length (filter (\<lambda>p. fst p = v) counts) = 1 \<and> (v, count_list ?C v) \<in> set counts"
    if "v \<in> set ?C" for v
  proof -
    from that perm have "v \<in> set ?D" by (metis set_mset_mset)
    then have "(v, count_list ?D v) \<in> set counts"
      unfolding co by (simp add: set_value_counts strings_minus_Null [OF st])
    moreover have "count_list ?D v = count_list ?C v"
      using perm by (metis count_mset)
    ultimately have m: "(v, count_list ?C v) \<in> set counts" by simp
    have "distinct (map fst counts)" unfolding co by (rule distinct_fst_value_counts)
    then have "length (filter (\<lambda>p. fst p = v) counts) = 1" using m by (rule one_entry)
    with m show ?thesis by simp
  qed
  from total each show ?thesis by blast
qed

theorem url_counts_match_cleaned_table_witness:
  "frame scenario_A \<and>
   process_data scenario_A = Inr (scenario_A_cleaned, scenario_A_counts) \<and>
   sum_list (map snd scenario_A_counts) = length (rows scenario_A_cleaned) \<and>
   length (filter (\<lambda>p. fst p = Str ''http://a.com/x'') scenario_A_counts) = 1 \<and>
   (Str ''http://a.com/x'',
    count_list (column_values ''Destination'' scenario_A_cleaned) (Str ''http://a.com/x''))
     \<in> set scenario_A_counts"
proof -
  have "Str ''http://a.com/x'' \<in> set (column_values ''Destination'' scenario_A_cleaned)"
    by (simp add: scenario_A_cleaned_def column_values_def)
  then show ?thesis
    using url_counts_match_cleaned_table [OF frame_scenario_A scenario_A_run]
      frame_scenario_A scenario_A_run
    by blast
qed

subsection \<open>C4: Main-domain detection\<close>

text \<open>
  C4, as stated: the main domain is the network location of the most frequent
  \<^verbatim>\<open>Source\<close> URL. In \<open>two_sites\<close> the most frequent URL lies on \<^verbatim>\<open>b.com\<close>, and the
  detected main domain is \<^verbatim>\<open>a.com\<close>.
\<close>

theorem main_domain_not_of_most_frequent_url:
  "most_common1 (Counter (column_values ''Source'' two_sites)) = [(Str ''http://b.com/x'', 2)] \<and>
   extract_main_domain (Str ''http://b.com/x'') = Inr ''b.com'' \<and>
   detect_main_domain two_sites = Inr ''a.com''"
  by code_simp

text \<open>
  C4, as amended: for every frame with at least one row and a \<^verbatim>\<open>Source\<close> column whose
  values all have a network location (\<open>domains\<close>, in row order), main-domain detection
  returns the network location that occurs most often in \<open>domains\<close>; among several of the
  same highest count it returns the one that occurs first in row order.
\<close>

theorem main_domain_most_frequent_netloc:
  assumes "''Source'' \<in> set (columns df)" and "rows df \<noteq> []"
    and "map extract_main_domain (column_values ''Source'' df) = map Inr domains"
  shows "\<exists>d. detect_main_domain df = Inr d \<and> d \<in> set domains \<and>
           (\<forall>e\<in>set domains. count_list domains e \<le> count_list domains d) \<and>
           (\<forall>e\<in>set domains. e \<noteq> d \<and> count_list domains e = count_list domains d \<longrightarrow>
               index_of d domains < index_of e domains)"
proof -
  have "length domains = length (rows df)"
    using assms(3) by (metis column_values_def length_map)
  with assms(2) have "domains \<noteq> []" by auto
  from most_common1_Counter [OF this] obtain d where
    m: "most_common1 (Counter domains) = [(d, count_list domains d)]" and
    rest: "d \<in> set domains"
      "\<forall>e\<in>set domains. count_list domains e \<le> count_list domains d"
      "\<forall>e\<in>set domains. e \<noteq> d \<and> count_list domains e = count_list domains d \<longrightarrow>
          index_of d domains < index_of e domains"
    by blast
  have "detect_main_domain df = Inr d"
    using assms(1,3) m by (rule detect_main_domain_eq)
  with rest show ?thesis by blast
qed

theorem main_domain_most_frequent_netloc_witness:
  "''Source'' \<in> set (columns tied_sites) \<and> rows tied_sites \<noteq> [] \<and>
   map extract_main_domain (column_values ''Source'' tied_sites) =
     map Inr [''b.com'', ''a.com'', ''a.com'', ''b.com''] \<and>
   detect_main_domain tied_sites = Inr ''b.com'' \<and>
   count_list [''b.com'', ''a.com'', ''a.com'', ''b.com''] ''a.com'' =
     count_list [''b.com'', ''a.com'', ''a.com'', ''b.com''] ''b.com'' \<and>
   index_of ''b.com'' [''b.com'', ''a.com'', ''a.com'', ''b.com''] <
     index_of ''a.com'' [''b.com'', ''a.com'', ''a.com'', ''b.com'']"
proof -
  have s: "''Source'' \<in> set (columns tied_sites)" and r: "rows tied_sites \<noteq> []"
    by (simp_all add: tied_sites_def)
  from main_domain_most_frequent_netloc [OF s r tied_sites_domains] obtain d where
    run: "detect_main_domain tied_sites = Inr d" and
    first: "\<forall>e\<in>set [''b.com'', ''a.com'', ''a.com'', ''b.com'']. e \<noteq> d \<and>
        count_list [''b.com'', ''a.com'', ''a.com'', ''b.com''] e =
        count_list [''b.com'', ''a.com'', ''a.com'', ''b.com''] d \<longrightarrow>
        index_of d [''b.com'', ''a.com'', ''a.com'', ''b.com''] <
        index_of e [''b.com'', ''a.com'', ''a.com'', ''b.com'']"
    by blast
  have "detect_main_domain tied_sites = Inr ''b.com''"
    by code_simp
  with run have d: "d = ''b.com''" by simp
  have c: "count_list [''b.com'', ''a.com'', ''a.com'', ''b.com''] ''a.com'' =
     count_list [''b.com'', ''a.com'', ''a.com'', ''b.com''] ''b.com''"
    by simp
  from first d c have "index_of ''b.com'' [''b.com'', ''a.com'', ''a.com'', ''b.com''] <
     index_of ''a.com'' [''b.com'', ''a.com'', ''a.com'', ''b.com'']"
    by simp
  with s r tied_sites_domains run d c show ?thesis by simp
qed

subsection \<open>C5: Range column drop\<close>

text \<open>
  C5, as stated: the columns between \<^verbatim>\<open>Follow\<close> and \<^verbatim>\<open>Link Path\<close> are removed
  whichever of the two comes first. In \<open>link_path_first\<close> both columns exist, \<^verbatim>\<open>Link Path\<close>
  stands to the left of \<^verbatim>\<open>Follow\<close>, and the step removes nothing.
\<close>

theorem drop_range_keeps_reversed_range:
  "''Follow'' \<in> set (columns link_path_first) \<and>
   ''Link Path'' \<in> set (columns link_path_first) \<and>
   drop_range link_path_first = link_path_first"
  by code_simp

text \<open>
  C5, as amended: when \<^verbatim>\<open>Follow\<close> and \<^verbatim>\<open>Link Path\<close> both exist and \<^verbatim>\<open>Follow\<close>
  stands to the left of \<^verbatim>\<open>Link Path\<close>, step 4 removes exactly the columns from
  \<^verbatim>\<open>Follow\<close> to \<^verbatim>\<open>Link Path\<close>, both included, with their cells; when
  \<^verbatim>\<open>Link Path\<close> stands to the left of \<^verbatim>\<open>Follow\<close>, or one of the two is missing, the
  step changes nothing.
\<close>

theorem drop_range_left_to_right:
  assumes "frame df"
  shows "if ''Follow'' \<in> set (columns df) \<and> ''Link Path'' \<in> set (columns df) \<and>
            index_of ''Follow'' (columns df) \<le> index_of ''Link Path'' (columns df)
         then columns (drop_range df) =
                take (index_of ''Follow'' (columns df)) (columns df) @
                drop (Suc (index_of ''Link Path'' (columns df))) (columns df) \<and>
              rows (drop_range df) =
                map (\<lambda>r. take (index_of ''Follow'' (columns df)) r @
                          drop (Suc (index_of ''Link Path'' (columns df))) r) (rows df)
         else drop_range df = df"
proof (cases "''Follow'' \<in> set (columns df) \<and> ''Link Path'' \<in> set (columns df)")
  case False
  then show ?thesis by (auto simp: drop_range_def)
next
  case True
  let ?i = "index_of ''Follow'' (columns df)"
  let ?j = "index_of ''Link Path'' (columns df)"
  from True have dr: "drop_range df = drop_columns (take (Suc ?j - ?i) (drop ?i (columns df))) df"
    by (simp add: drop_range_def loc_slice_columns_def)
  show ?thesis
  proof (cases "?i \<le> ?j")
    case le: True
    from True have "?j < length (columns df)" by (simp add: index_of_less_length)
    with assms le have
      "columns (drop_columns (take (Suc ?j - ?i) (drop ?i (columns df))) df) =
         take ?i (columns df) @ drop (Suc ?j) (columns df)"
      "rows (drop_columns (take (Suc ?j - ?i) (drop ?i (columns df))) df) =
         map (\<lambda>r. take ?i r @ drop (Suc ?j) r) (rows df)"
      by (rule drop_columns_block)+
    with True le dr show ?thesis by simp
  next
    case gt: False
    then have "Suc ?j - ?i = 0" by simp
    with dr have "drop_range df = drop_columns [] df" by simp
    with assms have "drop_range df = df" by (simp add: drop_columns_Nil)
    with gt show ?thesis by simp
  qed
qed

theorem drop_range_left_to_right_witness:
  "frame follow_first \<and>
   columns (drop_range follow_first) = [''Source'', ''Destination''] \<and>
   rows (drop_range follow_first) = [[Str ''http://a.com/p'', Str ''http://a.com/q'']]"
proof -
  have i: "index_of ''Follow'' (columns follow_first) = 1"
    and j: "index_of ''Link Path'' (columns follow_first) = 3"
    by (simp_all add: follow_first_def)
  have c: "''Follow'' \<in> set (columns follow_first) \<and> ''Link Path'' \<in> set (columns follow_first)"
    by (simp add: follow_first_def)
  from drop_range_left_to_right [OF frame_follow_first] c have
    "columns (drop_range follow_first) = take 1 (columns follow_first) @ drop (Suc 3) (columns follow_first)"
    "rows (drop_range follow_first) = map (\<lambda>r. take 1 r @ drop (Suc 3) r) (rows follow_first)"
    by (simp_all add: i j)
  then show ?thesis
    using frame_follow_first by (simp add: follow_first_def)
qed

subsection \<open>C7: Failures\<close>

text \<open>
  C7, as stated: a frame without \<^verbatim>\<open>Destination\<close> always ends with the error that names
  that column, and the two missing-column conditions and the zero-row condition are the only
  ones that prevent a result. \<open>no_rows\<close> lacks \<^verbatim>\<open>Destination\<close> and ends with
  \<open>EmptyDomainSet\<close>; \<open>missing_source_value\<close> has both columns and rows, and the run ends in
  the exception that \<^verbatim>\<open>urlparse\<close> raises on the missing \<^verbatim>\<open>Source\<close> value.
\<close>

theorem missing_columns_not_the_only_failures:
  "''Destination'' \<notin> set (columns no_rows) \<and>
   process_data no_rows = Inl EmptyDomainSet \<and>
   ''Source'' \<in> set (columns missing_source_value) \<and>
   ''Destination'' \<in> set (columns missing_source_value) \<and>
   rows missing_source_value \<noteq> [] \<and>
   process_data missing_source_value = Inl (Raised ''AttributeError'')"
  by code_simp

text \<open>
  C7, as amended: a frame without a \<^verbatim>\<open>Source\<close> column ends with
  \<open>MissingColumn ''Source''\<close>; a frame with a \<^verbatim>\<open>Source\<close> column and no rows ends with
  \<open>EmptyDomainSet\<close>; a frame without a \<^verbatim>\<open>Destination\<close> column on which main-domain
  detection succeeds ends with \<open>MissingColumn ''Destination''\<close>; no output is produced in
  these cases, and every run that produces output had a \<^verbatim>\<open>Source\<close> column, a
  \<^verbatim>\<open>Destination\<close> column and at least one row.
\<close>

theorem missing_column_failures:
  "(''Source'' \<notin> set (columns df) \<longrightarrow> process_data df = Inl (MissingColumn ''Source'')) \<and>
   (''Source'' \<in> set (columns df) \<and> rows df = [] \<longrightarrow> process_data df = Inl EmptyDomainSet) \<and>
   (''Destination'' \<notin> set (columns df) \<and> detect_main_domain df = Inr d \<longrightarrow>
      process_data df = Inl (MissingColumn ''Destination'')) \<and>
   (process_data df = Inr res \<longrightarrow>
      ''Source'' \<in> set (columns df) \<and> ''Destination'' \<in> set (columns df) \<and> rows df \<noteq> [])"
proof (intro conjI impI)
  assume "''Source'' \<notin> set (columns df)"
  then show "process_data df = Inl (MissingColumn ''Source'')"
    by (simp add: process_data_def detect_main_domain_def)
next
  assume "''Source'' \<in> set (columns df) \<and> rows df = []"
  then have "detect_main_domain df = Inl EmptyDomainSet"
    by (simp add: detect_main_domain_def column_values_def Counter_def)
  then show "process_data df = Inl EmptyDomainSet"
    by (simp add: process_data_def)
next
  assume a: "''Destination'' \<notin> set (columns df) \<and> detect_main_domain df = Inr d"
  with columns_prepare_subset_input [of df] have "''Destination'' \<notin> set (columns (prepare df))"
    by blast
  with a show "process_data df = Inl (MissingColumn ''Destination'')"
    by (simp add: missing_Destination)
next
  assume r: "process_data df = Inr res"
  then obtain main_domain internal where
    d: "detect_main_domain df = Inr main_domain" and
    i: "destination_filter main_domain (object_dtype ''Destination'' df) (prepare df) = Inr internal"
    by (rule process_data_Inr)
  from d show "''Source'' \<in> set (columns df)" and "rows df \<noteq> []"
    by (rule detect_main_domain_Inr)+
  from destination_filter_Inr(2) [OF i] columns_prepare_subset_input [of df]
  show "''Destination'' \<in> set (columns df)" by blast
qed

theorem missing_column_failures_witness:
  "''Source'' \<notin> set (columns no_source) \<and>
   process_data no_source = Inl (MissingColumn ''Source'') \<and>
   ''Source'' \<in> set (columns no_rows) \<and> rows no_rows = [] \<and>
   process_data no_rows = Inl EmptyDomainSet \<and>
   ''Destination'' \<notin> set (columns no_destination) \<and>
   detect_main_domain no_destination = Inr ''a.com'' \<and>
   process_data no_destination = Inl (MissingColumn ''Destination'') \<and>
   process_data scenario_A = Inr (scenario_A_cleaned, scenario_A_counts) \<and>
   ''Source'' \<in> set (columns scenario_A) \<and> ''Destination'' \<in> set (columns scenario_A) \<and>
   rows scenario_A \<noteq> []"
proof -
  have a: "''Source'' \<notin> set (columns no_source)"
    by (simp add: no_source_def)
  have b: "''Source'' \<in> set (columns no_rows) \<and> rows no_rows = []"
    by (simp add: no_rows_def)
  have c: "''Destination'' \<notin> set (columns no_destination) \<and>
      detect_main_domain no_destination = Inr ''a.com''"
    by code_simp
  from missing_column_failures [of no_source] a
  have 1: "process_data no_source = Inl (MissingColumn ''Source'')" by blast
  from missing_column_failures [of no_rows] b
  have 2: "process_data no_rows = Inl EmptyDomainSet" by blast
  from missing_column_failures [of no_destination "''a.com''"] c
  have 3: "process_data no_destination = Inl (MissingColumn ''Destination'')" by blast
  from missing_column_failures [of scenario_A _ "(scenario_A_cleaned, scenario_A_counts)"]
    scenario_A_run
  have 4: "''Source'' \<in> set (columns scenario_A) \<and> ''Destination'' \<in> set (columns scenario_A) \<and>
      rows scenario_A \<noteq> []" by blast
  from a b c 1 2 3 4 scenario_A_run show ?thesis by simp
qed

subsection \<open>C8: Anchor overuse\<close>

text \<open>
  C8. With an \<^verbatim>\<open>Anchor\<close> column, step 13 keeps, of the rows that reach it (those left by
  the anchor presence filter), exactly the ones whose anchor occurs at most five times among
  them, in their order: a row whose anchor occurs more than five times is dropped, a row whose
  anchor occurs exactly five times stays.
\<close>

theorem anchor_overuse_threshold:
  assumes "''Anchor'' \<in> set (columns df)"
    and "reached = anchor_presence_filter df"
    and "anchors = column_values ''Anchor'' reached"
  shows "rows (anchor_overuse_filter reached) =
           filter (\<lambda>r. count_list anchors (cell_at (columns reached) ''Anchor'' r) \<le> 5) (rows reached) \<and>
         (\<forall>r\<in>set (rows reached).
            (5 < count_list anchors (cell_at (columns reached) ''Anchor'' r) \<longrightarrow>
               r \<notin> set (rows (anchor_overuse_filter reached))) \<and>
            (count_list anchors (cell_at (columns reached) ''Anchor'' r) = 5 \<longrightarrow>
               r \<in> set (rows (anchor_overuse_filter reached))))"
proof -
  have cols: "columns reached = columns df"
    by (simp add: assms(2))
  have present: "cell_at (columns reached) ''Anchor'' r \<noteq> Null" if "r \<in> set (rows reached)" for r
    using that assms(1) by (simp add: assms(2) anchor_presence_filter_rows)
  have keep: "cell_at (columns reached) ''Anchor'' r \<notin> set (overused anchors) \<longleftrightarrow>
      count_list anchors (cell_at (columns reached) ''Anchor'' r) \<le> 5"
    if "r \<in> set (rows reached)" for r
    using present [OF that] by (auto simp: overused_iff)
  have "rows (anchor_overuse_filter reached) =
      filter (\<lambda>r. cell_at (columns reached) ''Anchor'' r \<notin> set (overused anchors)) (rows reached)"
    using assms(1) by (simp add: anchor_overuse_filter_def cols assms(3))
  also have "\<dots> = filter (\<lambda>r. count_list anchors (cell_at (columns reached) ''Anchor'' r) \<le> 5) (rows reached)"
    using keep by (intro filter_cong) simp_all
  finally have eq: "rows (anchor_overuse_filter reached) =
      filter (\<lambda>r. count_list anchors (cell_at (columns reached) ''Anchor'' r) \<le> 5) (rows reached)" .
  then show ?thesis by auto
qed

theorem anchor_overuse_threshold_witness:
  "''Anchor'' \<in> set (columns scenario_D) \<and>
   scenario_D = anchor_presence_filter scenario_D \<and>
   count_list (column_values ''Anchor'' scenario_D) (Str ''more'') = 6 \<and>
   count_list (column_values ''Anchor'' scenario_D) (Str ''home'') = 5 \<and>
   [Str ''http://a.com/p01'', Str ''http://a.com/x'', Str ''more'']
     \<notin> set (rows (anchor_overuse_filter scenario_D)) \<and>
   [Str ''http://a.com/p02'', Str ''http://a.com/x'', Str ''home'']
     \<in> set (rows (anchor_overuse_filter scenario_D))"
proof -
  let ?more = "[Str ''http://a.com/p01'', Str ''http://a.com/x'', Str ''more'']"
  let ?home = "[Str ''http://a.com/p02'', Str ''http://a.com/x'', Str ''home'']"
  let ?anchors = "column_values ''Anchor'' scenario_D"
  have a: "''Anchor'' \<in> set (columns scenario_D)"
    by (simp add: scenario_D_def)
  have r: "scenario_D = anchor_presence_filter scenario_D"
    by (rule scenario_D_reached [symmetric])
  have m: "?more \<in> set (rows scenario_D)" and h: "?home \<in> set (rows scenario_D)"
    by (simp_all add: scenario_D_def)
  have cm: "cell_at (columns scenario_D) ''Anchor'' ?more = Str ''more''"
    and ch: "cell_at (columns scenario_D) ''Anchor'' ?home = Str ''home''"
    by (simp_all add: scenario_D_def)
  note drops = anchor_overuse_threshold [OF a r refl, THEN conjunct2, rule_format]
  have "5 < count_list ?anchors (cell_at (columns scenario_D) ''Anchor'' ?more)"
    unfolding cm scenario_D_more by simp
  with drops [OF m] have 1: "?more \<notin> set (rows (anchor_overuse_filter scenario_D))"
    by (rule conjunct1 [THEN mp])
  have "count_list ?anchors (cell_at (columns scenario_D) ''Anchor'' ?home) = 5"
    unfolding ch scenario_D_home by simp
  with drops [OF h] have 2: "?home \<in> set (rows (anchor_overuse_filter scenario_D))"
    by (rule conjunct2 [THEN mp])
  show ?thesis
    using a r scenario_D_more scenario_D_home 1 2 by (intro conjI)
qed

subsection \<open>C9: A dropped Destination column\<close>

text \<open>
  C9. A frame can hold a \<^verbatim>\<open>Destination\<close> column and still end with the
  missing-Destination error: whenever main-domain detection has succeeded, \<^verbatim>\<open>Follow\<close>
  and \<^verbatim>\<open>Link Path\<close> both exist and \<^verbatim>\<open>Destination\<close> lies in the label slice that
  step 4 drops, the column is gone before the check of step 7, and the run returns
  \<open>MissingColumn ''Destination''\<close> without output.
\<close>

theorem destination_dropped_with_range:
  assumes "detect_main_domain df = Inr d"
    and "''Follow'' \<in> set (columns df)" and "''Link Path'' \<in> set (columns df)"
    and "''Destination'' \<in> set (loc_slice_columns ''Follow'' ''Link Path'' (columns (drop_initial df)))"
  shows "''Destination'' \<in> set (columns df) \<and>
         process_data df = Inl (MissingColumn ''Destination'')"
proof -
  let ?df1 = "drop_initial df"
  have f: "''Follow'' \<in> set (columns ?df1)" and l: "''Link Path'' \<in> set (columns ?df1)"
    using assms(2,3) by (simp_all add: kept_by_drop_initial columns_to_drop_initial_def)
  then have "drop_range ?df1 =
      drop_columns (loc_slice_columns ''Follow'' ''Link Path'' (columns ?df1)) ?df1"
    by (simp add: drop_range_def)
  with assms(4) have "''Destination'' \<notin> set (columns (drop_range ?df1))"
    by simp
  with columns_prepare_subset [of df] have "''Destination'' \<notin> set (columns (prepare df))"
    by blast
  with assms(1) have "process_data df = Inl (MissingColumn ''Destination'')"
    by (rule missing_Destination)
  moreover have "''Destination'' \<in> set (columns df)"
    using assms(4) loc_slice_columns_subset columns_drop_initial_subset by blast
  ultimately show ?thesis by simp
qed

theorem destination_dropped_with_range_witness:
  "detect_main_domain destination_in_range = Inr ''a.com'' \<and>
   ''Follow'' \<in> set (columns destination_in_range) \<and>
   ''Link Path'' \<in> set (columns destination_in_range) \<and>
   ''Destination'' \<in> set (loc_slice_columns ''Follow'' ''Link Path''
       (columns (drop_initial destination_in_range))) \<and>
   ''Destination'' \<in> set (columns destination_in_range) \<and>
   process_data destination_in_range = Inl (MissingColumn ''Destination'')"
proof -
  have d: "detect_main_domain destination_in_range = Inr ''a.com''"
    by code_simp
  have f: "''Follow'' \<in> set (columns destination_in_range)"
    and l: "''Link Path'' \<in> set (columns destination_in_range)"
    by (simp_all add: destination_in_range_def)
  have s: "''Destination'' \<in> set (loc_slice_columns ''Follow'' ''Link Path''
       (columns (drop_initial destination_in_range)))"
    by code_simp
  from destination_dropped_with_range [OF d f l s] d f l s show ?thesis by simp
qed

subsection \<open>C10: Empty main domain\<close>




end
